theory Spec2Isabelle
  imports Main
begin

section \<open>SynchronizedWorker: the state hand-off between controllers and the worker thread\<close>

text \<open>
  This theory embeds \<^verbatim>\<open>SynchronizedWorkerThread.cpp\<close>. Each member function of
  \<^verbatim>\<open>SynchronizedWorker::Thread\<close> becomes a function on a record of the object's
  fields. A call that ends in \<^verbatim>\<open>LOG_ALWAYS_FATAL_IF\<close> aborts the process: it is the
  \<open>Inl\<close> branch of the result. Everything a call does besides updating the fields
  (taking the mutex, system calls on the eventfd, the broadcast on the condition variable,
  log lines, calls into the handler, joining the thread) is appended, in program order, to
  the \<open>trace\<close> of the calling thread. Every assignment to \<^verbatim>\<open>currentState\<close> or
  \<^verbatim>\<open>desiredState\<close> is appended to the \<open>stores\<close> of the calling thread, with the number
  of trace events that precede it.
\<close>

subsection \<open>Data model\<close>

text \<open>
  Modelled from the spec: the enumeration \<^verbatim>\<open>AsyncState\<close> is declared in
  \<^verbatim>\<open>SynchronizedWorkerThread.h\<close>, which is not among the sources. The six named
  values are the ones the source switches over in \<^verbatim>\<open>AsyncStateToChar\<close>. A C++
  enumeration can also hold a value that is none of its enumerators; the source provides
  for it (the fall-through of \<^verbatim>\<open>AsyncStateToChar\<close>, the \<^verbatim>\<open>default:\<close> of
  \<^verbatim>\<open>RunThread\<close>), and \<open>Unknown n\<close> stands for such a value with number \<open>n\<close>.
\<close>

datatype AsyncState = Invalid | Idle | Pause | Authenticate | Enroll | Stop | Unknown int

text \<open>
  The Android log macros. \<^verbatim>\<open>ALOGV\<close> is compiled out (\<^verbatim>\<open>LOG_NDEBUG\<close> is left
  undefined by the source, the line that sets it to 0 is commented out), so verbose lines
  leave no event.
\<close>

datatype priority = DEBUG | INFO | WARN | ERROR

datatype log_arg = Str string | Num int

datatype event =
    ALOG priority string "log_arg list"
  | MutexLock
  | MutexUnlock
  | EventfdRead
  | EventfdWrite
  | NotifyAll
  | WaitFor nat
  | PollFd int int
  | IdleAsync
  | AuthenticateAsync
  | EnrollAsync
  | ThreadCreate
  | ThreadJoin
  | CloseFd int

datatype fatal = Fatal string

datatype shared_field = CurrentState | DesiredState

text \<open>
  Modelled from the spec: the fields of \<^verbatim>\<open>Thread\<close> are declared in the missing
  header; the source names \<^verbatim>\<open>mHandler\<close>, \<^verbatim>\<open>event_fd\<close>, \<^verbatim>\<open>mEventfdMutex\<close>,
  \<^verbatim>\<open>currentState\<close>, \<^verbatim>\<open>desiredState\<close>, \<^verbatim>\<open>thread\<close> and
  \<^verbatim>\<open>mThreadStateChanged\<close>.

  \<^item> \<open>mHandler\<close> is the \<^verbatim>\<open>WorkHandler *\<close>: \<open>None\<close> is the null pointer.
  \<^item> \<open>efd_counter\<close> is the kernel's counter behind \<open>event_fd\<close> (see \<open>eventfd_read\<close>).
  \<^item> \<open>mEventfdMutex\<close> is the identity (address) of the mutex member.
  \<^item> \<open>thread_joinable\<close> is \<^verbatim>\<open>thread.joinable()\<close>.
  \<^item> \<open>stores\<close> and \<open>trace\<close> are not fields of the object: they record what the calling
    thread has done to it.
\<close>

record Thread =
  mHandler :: "nat option"
  event_fd :: int
  efd_counter :: nat
  mEventfdMutex :: nat
  currentState :: AsyncState
  desiredState :: AsyncState
  thread_joinable :: bool
  stores :: "(nat \<times> shared_field \<times> AsyncState) list"
  trace :: "event list"

text \<open>
  A \<^verbatim>\<open>std::unique_lock<std::mutex>\<close>: the mutex it refers to (\<open>None\<close> when it refers
  to none) and whether it owns it.
\<close>

record unique_lock =
  lk_mutex :: "nat option"
  lk_owns :: bool

definition emit :: "event \<Rightarrow> Thread \<Rightarrow> Thread" where
  "emit e t = t\<lparr>trace := trace t @ [e]\<rparr>"

text \<open>
  An assignment \<^verbatim>\<open>currentState = v\<close> or \<^verbatim>\<open>desiredState = v\<close>: the field changes, and
  the assignment is recorded at its place in the trace.
\<close>

fun store :: "shared_field \<Rightarrow> AsyncState \<Rightarrow> Thread \<Rightarrow> Thread" where
  "store CurrentState v t =
     t\<lparr>currentState := v, stores := stores t @ [(length (trace t), CurrentState, v)]\<rparr>"
| "store DesiredState v t =
     t\<lparr>desiredState := v, stores := stores t @ [(length (trace t), DesiredState, v)]\<rparr>"

text \<open>\<^verbatim>\<open>std::unique_lock<std::mutex> lock(mEventfdMutex)\<close>: the handle of a lock just taken.\<close>

definition held_lock :: "Thread \<Rightarrow> unique_lock" where
  "held_lock t = \<lparr>lk_mutex = Some (mEventfdMutex t), lk_owns = True\<rparr>"

subsection \<open>The eventfd\<close>

text \<open>
  The descriptor is created by the constructor with \<^verbatim>\<open>EFD_NONBLOCK\<close> and without
  \<^verbatim>\<open>EFD_SEMAPHORE\<close>. By eventfd(2), on such a descriptor
  \<^item> a read fails (\<^verbatim>\<open>eventfd_read\<close> returns \<open>-1\<close>) when the counter is zero, and
    otherwise returns the counter and resets it to zero;
  \<^item> a write of 1 adds 1 to the counter, and fails (\<open>-1\<close>) when that would take the
    counter past \<^verbatim>\<open>0xfffffffffffffffe\<close>.
\<close>

definition EFD_MAX :: nat where
  "EFD_MAX = 0xfffffffffffffffe"

definition eventfd_read :: "Thread \<Rightarrow> int \<times> Thread" where
  "eventfd_read t =
     (if efd_counter t = 0 then (-1, emit EventfdRead t)
      else (0, (emit EventfdRead t)\<lparr>efd_counter := 0\<rparr>))"

definition eventfd_write :: "Thread \<Rightarrow> int \<times> Thread" where
  "eventfd_write t =
     (if efd_counter t + 1 \<le> EFD_MAX
      then (0, (emit EventfdWrite t)\<lparr>efd_counter := efd_counter t + 1\<rparr>)
      else (-1, emit EventfdWrite t))"

subsection \<open>AsyncStateToChar\<close>

fun AsyncStateToChar :: "AsyncState \<Rightarrow> string" where
  "AsyncStateToChar Invalid = ''Invalid''"
| "AsyncStateToChar Idle = ''Idle''"
| "AsyncStateToChar Pause = ''Pause''"
| "AsyncStateToChar Authenticate = ''Authenticate''"
| "AsyncStateToChar Enroll = ''Enroll''"
| "AsyncStateToChar Stop = ''Stop''"
| "AsyncStateToChar (Unknown n) = ''UNKNOWN (SEE PREVIOUS ERROR)''"

text \<open>
  The fall-through of \<^verbatim>\<open>AsyncStateToChar\<close> logs an error before it returns its
  string. \<open>unknown_line s\<close> is what a call \<^verbatim>\<open>AsyncStateToChar(s)\<close> logs; the callers
  below add it to the trace before the line that prints the name.
\<close>

fun unknown_line :: "AsyncState \<Rightarrow> event list" where
  "unknown_line (Unknown n) =
     [ALOG ERROR ''%s: Unknown enum state %d'' [Str ''AsyncStateToChar'', Num n]]"
| "unknown_line s = []"

definition log_unknown :: "AsyncState \<Rightarrow> Thread \<Rightarrow> Thread" where
  "log_unknown s t = t\<lparr>trace := trace t @ unknown_line s\<rparr>"

subsection \<open>consumeState\<close>

definition consumeState :: "Thread \<Rightarrow> fatal + (AsyncState \<times> Thread)" where
  "consumeState t0 =
     (let t1 = emit MutexLock t0;
          (rc, t2) = eventfd_read t1
      in if rc = 0 \<and> desiredState t2 = Invalid
         then Inl (Fatal ''Requested state is invalid!'')
         else let state = (if rc = 0 then desiredState t2 else Idle);
                  t3 = store CurrentState state t2;
                  t4 = store DesiredState Invalid t3;
                  t5 = emit NotifyAll t4
              in Inr (state, emit MutexUnlock t5))"

subsection \<open>moveToState\<close>

definition moveToState_lock ::
  "AsyncState \<Rightarrow> unique_lock \<Rightarrow> Thread \<Rightarrow> fatal + (bool \<times> Thread)" where
  "moveToState_lock state lock t0 =
     (if lk_mutex lock \<noteq> Some (mEventfdMutex t0) \<or> \<not> lk_owns lock
      then Inl (Fatal ''Caller didn't lock mEventfdMutex!'')
      else
        let t1 = emit (ALOG DEBUG ''%s: Setting state to %s''
                         [Str ''moveToState'', Str (AsyncStateToChar state)])
                   (log_unknown state t0);
            t2 = (if desiredState t1 \<noteq> Invalid
                  then emit (ALOG WARN ''Previous state %s was not consumed. Overriding to %s!''
                               [Str (AsyncStateToChar (desiredState t1)),
                                Str (AsyncStateToChar state)])
                         (log_unknown state (log_unknown (desiredState t1) t1))
                  else t1);
            t3 = store DesiredState state t2;
            (rc, t4) = eventfd_write t3;
            t5 = (if rc \<noteq> 0
                  then emit (ALOG ERROR ''%s: Failed to write event-available to eventfd: %d''
                               [Str ''moveToState'', Num rc]) t4
                  else t4)
        in Inr (rc = 0, t5))"

definition moveToState :: "AsyncState \<Rightarrow> Thread \<Rightarrow> fatal + (bool \<times> Thread)" where
  "moveToState state t0 =
     (let t1 = emit MutexLock t0
      in case moveToState_lock state (held_lock t1) t1 of
           Inl f \<Rightarrow> Inl f
         | Inr (r, t2) \<Rightarrow> Inr (r, emit MutexUnlock t2))"

subsection \<open>Waiting on the condition variable\<close>

text \<open>
  While a controller waits on \<^verbatim>\<open>mThreadStateChanged\<close> it does not hold the mutex,
  and other threads run. What they do is an input of the model: a list of the waiter's
  wake-ups, each with the time (in milliseconds since the wait began) at which it happens
  and the values the other threads have left in the shared fields by then. What the other
  threads assign is not among the stores of the waiter.
\<close>

record interference =
  new_current :: AsyncState
  new_desired :: AsyncState
  new_counter :: nat

definition interfere :: "interference \<Rightarrow> Thread \<Rightarrow> Thread" where
  "interfere i t =
     t\<lparr>currentState := new_current i, desiredState := new_desired i,
       efd_counter := new_counter i\<rparr>"

text \<open>One \<^verbatim>\<open>wait_until\<close>: the mutex is released, the thread sleeps, the mutex is retaken.\<close>

definition wait_once :: "interference \<Rightarrow> Thread \<Rightarrow> Thread" where
  "wait_once i t = emit MutexLock (interfere i (emit MutexUnlock t))"

text \<open>
  \<^verbatim>\<open>std::condition_variable::wait_for(lock, rel_time, pred)\<close>, which the C++ standard
  defines as
  \<^verbatim>\<open>while (!pred()) if (wait_until(lock, abs_time) == cv_status::timeout) return pred(); return true;\<close>
  A wake-up at or after the timeout is the one that reports \<^verbatim>\<open>cv_status::timeout\<close>. When
  the list of wake-ups is exhausted nothing else happens to the shared fields before the
  timeout.
\<close>

fun wait_for ::
  "nat \<Rightarrow> (Thread \<Rightarrow> bool) \<Rightarrow> (nat \<times> interference) list \<Rightarrow> Thread \<Rightarrow> bool \<times> Thread" where
  "wait_for timeout pred [] t =
     (if pred t then (True, t) else (False, emit MutexLock (emit MutexUnlock t)))"
| "wait_for timeout pred ((at, i) # ws) t =
     (if pred t then (True, t)
      else if timeout \<le> at then (pred (wait_once i t), wait_once i t)
      else wait_for timeout pred ws (wait_once i t))"

subsection \<open>waitForState\<close>

text \<open>\<^verbatim>\<open>constexpr auto wait_timeout = std::chrono::seconds(3)\<close>\<close>

definition wait_timeout :: nat where
  "wait_timeout = 3"

definition waitForState_lock ::
  "(nat \<times> interference) list \<Rightarrow> AsyncState \<Rightarrow> unique_lock \<Rightarrow> Thread
     \<Rightarrow> fatal + (bool \<times> Thread)" where
  "waitForState_lock ws state lock t0 =
     (case moveToState_lock state lock t0 of
        Inl f \<Rightarrow> Inl f
      | Inr (moved, t1) \<Rightarrow>
          if \<not> moved
          then Inr (False,
                 emit (ALOG ERROR ''Failed to transition from %s to %s''
                         [Str (AsyncStateToChar (currentState t1)),
                          Str (AsyncStateToChar state)])
                   (log_unknown state (log_unknown (currentState t1) t1)))
          else
            let (success, t2) =
                  wait_for (1000 * wait_timeout) (\<lambda>t. currentState t = state) ws
                    (emit (WaitFor wait_timeout) t1)
            in if \<not> success
               then Inl (Fatal
                 ''Timed out waiting for %s for %llds. Are you writing race conditions??'')
               else Inr (True,
                      emit (ALOG DEBUG ''%s: Successfully switched to %s''
                              [Str ''waitForState'', Str (AsyncStateToChar state)])
                        (log_unknown state t2)))"

definition waitForState ::
  "(nat \<times> interference) list \<Rightarrow> AsyncState \<Rightarrow> Thread \<Rightarrow> fatal + (bool \<times> Thread)" where
  "waitForState ws state t0 =
     (let t1 = emit MutexLock t0
      in case waitForState_lock ws state (held_lock t1) t1 of
           Inl f \<Rightarrow> Inl f
         | Inr (r, t2) \<Rightarrow> Inr (r, emit MutexUnlock t2))"

subsection \<open>Construction, start, stop, pause, resume, destruction\<close>

text \<open>
  Modelled from the spec: the member initialisers of \<^verbatim>\<open>currentState\<close> and
  \<^verbatim>\<open>desiredState\<close> are in the missing header. The spec gives \<open>Idle\<close> as the initial
  \<open>currentState\<close>, and \<open>Invalid\<close> as the \<open>desiredState\<close> when no request is pending.
\<close>

definition initial_currentState :: AsyncState where
  "initial_currentState = Idle"

definition initial_desiredState :: AsyncState where
  "initial_desiredState = Invalid"

text \<open>
  The constructor. \<open>mutex\<close> is the identity of the new object's mutex, \<open>handler\<close> the
  pointer passed in and \<open>fd\<close> what \<^verbatim>\<open>eventfd(0, EFD_NONBLOCK | EFD_CLOEXEC)\<close> returns.
  A new \<^verbatim>\<open>std::thread\<close> member is not joinable, and a new eventfd has the counter 0
  it was created with. The member initialisers are not recorded as stores.
\<close>

definition Thread_ctor :: "nat \<Rightarrow> nat option \<Rightarrow> int \<Rightarrow> fatal + Thread" where
  "Thread_ctor mutex handler fd =
     (if handler = None then Inl (Fatal ''WorkHandler is null!'')
      else if fd < 0 then Inl (Fatal ''Failed to create eventfd: %s'')
      else Inr \<lparr>mHandler = handler, event_fd = fd, efd_counter = 0, mEventfdMutex = mutex,
                currentState = initial_currentState, desiredState = initial_desiredState,
                thread_joinable = False, stores = [], trace = []\<rparr>)"

definition getEventFd :: "Thread \<Rightarrow> int" where
  "getEventFd t = event_fd t"

text \<open>
  \<^verbatim>\<open>thread = std::thread(ThreadStart, this)\<close>. Assigning to a \<^verbatim>\<open>std::thread\<close> that is
  joinable calls \<^verbatim>\<open>std::terminate\<close>.
\<close>

definition Thread_Start :: "Thread \<Rightarrow> fatal + Thread" where
  "Thread_Start t =
     (if thread_joinable t then Inl (Fatal ''std::terminate'')
      else Inr ((emit ThreadCreate t)\<lparr>thread_joinable := True\<rparr>))"

definition Thread_Stop :: "(nat \<times> interference) list \<Rightarrow> Thread \<Rightarrow> fatal + Thread" where
  "Thread_Stop ws t0 =
     (let t1 = emit MutexLock t0
      in if thread_joinable t1
         then (case waitForState_lock ws Stop (held_lock t1)
                      (emit (ALOG WARN ''Requesting thread to stop'' []) t1) of
                 Inl f \<Rightarrow> Inl f
               | Inr (success, t2) \<Rightarrow>
                   if \<not> success then Inl (Fatal ''Failed to stop thread!'')
                   else Inr (emit MutexUnlock ((emit ThreadJoin t2)\<lparr>thread_joinable := False\<rparr>)))
         else Inr (emit MutexUnlock t1))"

definition Thread_Pause ::
  "(nat \<times> interference) list \<Rightarrow> Thread \<Rightarrow> fatal + (bool \<times> Thread)" where
  "Thread_Pause ws t = waitForState ws Pause t"

definition Thread_Resume :: "Thread \<Rightarrow> fatal + (bool \<times> Thread)" where
  "Thread_Resume t = moveToState Idle t"


subsection \<open>The worker loop\<close>

text \<open>
  \<^verbatim>\<open>isEventAvailable(timeout)\<close>. \<open>cnt\<close> is what \<^verbatim>\<open>poll\<close> returns, an input of the
  model: how long the call sleeps and what it finds depends on the other threads.
\<close>

definition isEventAvailable :: "int \<Rightarrow> int \<Rightarrow> Thread \<Rightarrow> bool \<times> Thread" where
  "isEventAvailable cnt timeout t0 =
     (let t1 = emit (PollFd (event_fd t0) timeout) t0
      in if cnt < 0
         then (False, emit (ALOG ERROR ''%s: Failed polling eventfd: %d''
                              [Str ''isEventAvailable'', Num cnt]) t1)
         else (cnt > 0, t1))"

text \<open>The default \<^verbatim>\<open>WorkHandler::IdleAsync\<close>: \<^verbatim>\<open>getWorker().isEventAvailable(-1)\<close>.\<close>

definition WorkHandler_IdleAsync :: "int \<Rightarrow> Thread \<Rightarrow> Thread" where
  "WorkHandler_IdleAsync cnt t = snd (isEventAvailable cnt (-1) t)"

text \<open>
  The \<^verbatim>\<open>switch\<close> of \<^verbatim>\<open>RunThread\<close>. The result says whether the branch returns from
  \<^verbatim>\<open>RunThread\<close> (\<open>True\<close>) or breaks (\<open>False\<close>). The handler's operations are virtual
  calls into code outside this file: each is an event of the trace.
\<close>

fun RunThread_switch :: "int \<Rightarrow> AsyncState \<Rightarrow> Thread \<Rightarrow> bool \<times> Thread" where
  "RunThread_switch cnt Idle t = (False, emit IdleAsync t)"
| "RunThread_switch cnt Pause t = (False, snd (isEventAvailable cnt (-1) t))"
| "RunThread_switch cnt Authenticate t = (False, emit AuthenticateAsync t)"
| "RunThread_switch cnt Enroll t = (False, emit EnrollAsync t)"
| "RunThread_switch cnt Stop t = (True, emit (ALOG INFO ''Stopping Thread'' []) t)"
| "RunThread_switch cnt s t =
     (False, emit (ALOG WARN ''Unexpected AsyncState %s'' [Str (AsyncStateToChar s)])
               (log_unknown s t))"

text \<open>
  The loop \<^verbatim>\<open>for (;;)\<close> runs until \<open>Stop\<close> is consumed, which need never happen. The
  model runs it along a schedule: one entry for each iteration, with what \<^verbatim>\<open>poll\<close>
  returns if the iteration polls and what the controllers have left in the shared fields
  by the time the dispatch is over. When the schedule is exhausted the loop is still
  running.
\<close>

datatype running = Looping | Returned

fun RunThread_loop ::
  "(int \<times> interference) list \<Rightarrow> Thread \<Rightarrow> fatal + (running \<times> Thread)" where
  "RunThread_loop [] t = Inr (Looping, t)"
| "RunThread_loop ((cnt, i) # sched) t0 =
     (case consumeState t0 of
        Inl f \<Rightarrow> Inl f
      | Inr (nextState, t1) \<Rightarrow>
          let t2 = emit (ALOG DEBUG ''%s: Switched to state %s''
                           [Str ''RunThread'', Str (AsyncStateToChar nextState)])
                     (log_unknown nextState t1);
              (return, t3) = RunThread_switch cnt nextState t2
          in if return then Inr (Returned, t3)
             else RunThread_loop sched (store CurrentState Idle (interfere i t3)))"

definition RunThread ::
  "(int \<times> interference) list \<Rightarrow> Thread \<Rightarrow> fatal + (running \<times> Thread)" where
  "RunThread sched t = RunThread_loop sched (emit (ALOG DEBUG ''Async thread up'' []) t)"

definition ThreadStart ::
  "(int \<times> interference) list \<Rightarrow> Thread \<Rightarrow> fatal + (running \<times> Thread)" where
  "ThreadStart sched self = RunThread sched self"

subsection \<open>Notions used to state the properties\<close>

text \<open>The events a call has added to the trace: those of \<open>t'\<close> after those of \<open>t\<close>.\<close>

definition events_since :: "Thread \<Rightarrow> Thread \<Rightarrow> event list" where
  "events_since t t' = drop (length (trace t)) (trace t')"

text \<open>The assignments a call has added to the stores.\<close>

definition stores_since ::
  "Thread \<Rightarrow> Thread \<Rightarrow> (nat \<times> shared_field \<times> AsyncState) list" where
  "stores_since t t' = drop (length (stores t)) (stores t')"

text \<open>
  Whether, after the first \<open>p\<close> of the events of a call, the calling thread holds the mutex:
  it has taken it and has not released it.
\<close>

definition under_lock :: "event list \<Rightarrow> nat \<Rightarrow> bool" where
  "under_lock es p = (MutexLock \<in> set (take p es) \<and> MutexUnlock \<notin> set (take p es))"

text \<open>The shared fields as a thread has left them, which is how another thread finds them.\<close>

definition shared :: "Thread \<Rightarrow> interference" where
  "shared t =
     \<lparr>new_current = currentState t, new_desired = desiredState t, new_counter = efd_counter t\<rparr>"

fun is_warning :: "event \<Rightarrow> bool" where
  "is_warning (ALOG WARN fmt args) = True"
| "is_warning e = False"

text \<open>
  The wake-ups a wait with the given timeout (in milliseconds) can see: those before the
  timeout, and the first one at or after it, which is the one that reports the timeout.
\<close>

fun within :: "nat \<Rightarrow> (nat \<times> interference) list \<Rightarrow> (nat \<times> interference) list" where
  "within timeout [] = []"
| "within timeout ((at, i) # ws) = (at, i) # (if timeout \<le> at then [] else within timeout ws)"

subsection \<open>Names for intermediate states\<close>

text \<open>
  What \<^verbatim>\<open>moveToState(state, lock)\<close> adds to the trace once the lock is validated: the
  log lines before the assignment to \<^verbatim>\<open>desiredState\<close>, then the write and its error line.
\<close>

definition request_logged :: "AsyncState \<Rightarrow> Thread \<Rightarrow> event list" where
  "request_logged S t =
     unknown_line S @
     [ALOG DEBUG ''%s: Setting state to %s'' [Str ''moveToState'', Str (AsyncStateToChar S)]] @
     (if desiredState t \<noteq> Invalid
      then unknown_line (desiredState t) @ unknown_line S @
        [ALOG WARN ''Previous state %s was not consumed. Overriding to %s!''
           [Str (AsyncStateToChar (desiredState t)), Str (AsyncStateToChar S)]]
      else [])"

definition moveToState_events :: "AsyncState \<Rightarrow> Thread \<Rightarrow> event list" where
  "moveToState_events S t =
     request_logged S t @
     [EventfdWrite] @
     (if efd_counter t < EFD_MAX then []
      else [ALOG ERROR ''%s: Failed to write event-available to eventfd: %d''
              [Str ''moveToState'', Num (- 1)]])"

text \<open>What \<^verbatim>\<open>waitForState\<close> logs when \<^verbatim>\<open>moveToState\<close> has failed.\<close>

definition failed_transition :: "AsyncState \<Rightarrow> Thread \<Rightarrow> event list" where
  "failed_transition S t =
     unknown_line (currentState t) @ unknown_line S @
     [ALOG ERROR ''Failed to transition from %s to %s''
        [Str (AsyncStateToChar (currentState t)), Str (AsyncStateToChar S)]]"

text \<open>The state in which \<^verbatim>\<open>waitForState\<close> starts to wait, after a successful write.\<close>

definition waiting :: "AsyncState \<Rightarrow> Thread \<Rightarrow> Thread" where
  "waiting S t =
     t\<lparr>desiredState := S, efd_counter := efd_counter t + 1,
       stores := stores t @ [(length (trace t) + length (request_logged S t), DesiredState, S)],
       trace := trace t @ moveToState_events S t @ [WaitFor wait_timeout]\<rparr>"


text \<open>
  The worker after the log line that follows \<^verbatim>\<open>consumeState\<close>, and at the end of an
  iteration that does not return.
\<close>

definition switched :: "AsyncState \<Rightarrow> Thread \<Rightarrow> Thread" where
  "switched s t =
     emit (ALOG DEBUG ''%s: Switched to state %s'' [Str ''RunThread'', Str (AsyncStateToChar s)])
       (log_unknown s t)"

definition dispatched :: "int \<Rightarrow> interference \<Rightarrow> AsyncState \<Rightarrow> Thread \<Rightarrow> Thread" where
  "dispatched cnt i s t =
     store CurrentState Idle (interfere i (snd (RunThread_switch cnt s (switched s t))))"

subsection \<open>Example coordinators\<close>

text \<open>
  \<open>fresh\<close> is what the constructor returns for mutex 7, handler 1 and descriptor 3;
  \<open>started\<close> has a worker thread; \<open>requested S\<close> has one unconsumed request for \<open>S\<close>;
  \<open>saturated\<close> has an eventfd counter that admits no further write. A worker that enters
  \<open>S\<close> consumes the request; a worker that stalls leaves it pending.
\<close>

definition fresh :: Thread where
  "fresh = \<lparr>mHandler = Some 1, event_fd = 3, efd_counter = 0, mEventfdMutex = 7,
            currentState = Idle, desiredState = Invalid, thread_joinable = False,
            stores = [], trace = []\<rparr>"

definition started :: Thread where
  "started = fresh\<lparr>thread_joinable := True\<rparr>"

definition requested :: "AsyncState \<Rightarrow> Thread" where
  "requested S = started\<lparr>efd_counter := 1, desiredState := S\<rparr>"

definition saturated :: Thread where
  "saturated = started\<lparr>efd_counter := EFD_MAX\<rparr>"

text \<open>
  The worker's view after it has consumed the request of \<open>requested S\<close>, and after it has
  then run the handler's authenticate operation and reset \<open>currentState\<close>.
\<close>

definition consumed :: "AsyncState \<Rightarrow> Thread" where
  "consumed S =
     started\<lparr>currentState := S,
       stores := [(2, CurrentState, S), (2, DesiredState, Invalid)],
       trace := [MutexLock, EventfdRead, NotifyAll, MutexUnlock]\<rparr>"

definition authenticated :: Thread where
  "authenticated =
     started\<lparr>stores := [(2, CurrentState, Authenticate), (2, DesiredState, Invalid),
                         (6, CurrentState, Idle)],
       trace := [MutexLock, EventfdRead, NotifyAll, MutexUnlock,
                 ALOG DEBUG ''%s: Switched to state %s'' [Str ''RunThread'', Str ''Authenticate''],
                 AuthenticateAsync]\<rparr>"

definition worker_enters :: "AsyncState \<Rightarrow> interference" where
  "worker_enters S = \<lparr>new_current = S, new_desired = Invalid, new_counter = 0\<rparr>"

definition worker_stalls :: "AsyncState \<Rightarrow> interference" where
  "worker_stalls S = \<lparr>new_current = Idle, new_desired = S, new_counter = 1\<rparr>"

section \<open>Properties\<close>

subsection \<open>Basic facts\<close>

lemmas prim_defs = emit_def log_unknown_def interfere_def wait_once_def eventfd_read_def
  eventfd_write_def held_lock_def

lemmas example_defs = fresh_def started_def requested_def saturated_def worker_enters_def
  worker_stalls_def consumed_def authenticated_def

lemma unknown_line_no_warning: "filter is_warning (unknown_line s) = []"
  by (cases s) simp_all

lemma unknown_line_no_write: "EventfdWrite \<notin> set (unknown_line s)"
  by (cases s) simp_all

lemma consumeState_cases:
  "consumeState t =
     (if efd_counter t = 0
      then Inr (Idle, t\<lparr>currentState := Idle, desiredState := Invalid,
                        stores := stores t @ [(length (trace t) + 2, CurrentState, Idle),
                                              (length (trace t) + 2, DesiredState, Invalid)],
                        trace := trace t @ [MutexLock, EventfdRead, NotifyAll, MutexUnlock]\<rparr>)
      else if desiredState t = Invalid then Inl (Fatal ''Requested state is invalid!'')
      else Inr (desiredState t,
                t\<lparr>efd_counter := 0, currentState := desiredState t, desiredState := Invalid,
                  stores := stores t @ [(length (trace t) + 2, CurrentState, desiredState t),
                                        (length (trace t) + 2, DesiredState, Invalid)],
                  trace := trace t @ [MutexLock, EventfdRead, NotifyAll, MutexUnlock]\<rparr>))"
  by (simp add: consumeState_def prim_defs Let_def)

lemma RunThread_switch_desired:
  "desiredState (snd (RunThread_switch cnt s t)) = desiredState t"
  by (cases s) (simp_all add: isEventAvailable_def prim_defs Let_def)

lemma RunThread_switch_stores:
  "stores (snd (RunThread_switch cnt s t)) = stores t"
  by (cases s) (simp_all add: isEventAvailable_def prim_defs Let_def)

lemma moveToState_lock_cases:
  "moveToState_lock S lock t =
     (if lk_mutex lock \<noteq> Some (mEventfdMutex t) \<or> \<not> lk_owns lock
      then Inl (Fatal ''Caller didn't lock mEventfdMutex!'')
      else Inr (efd_counter t < EFD_MAX,
             t\<lparr>desiredState := S,
               efd_counter := (if efd_counter t < EFD_MAX then efd_counter t + 1 else efd_counter t),
               stores := stores t @
                 [(length (trace t) + length (request_logged S t), DesiredState, S)],
               trace := trace t @ moveToState_events S t\<rparr>))"
  by (simp add: moveToState_lock_def prim_defs Let_def moveToState_events_def request_logged_def)

lemma eventfd_write_rc: "(fst (eventfd_write t) = 0) = (efd_counter t < EFD_MAX)"
  by (auto simp add: eventfd_write_def)

lemma eventfd_write_counter:
  "efd_counter (snd (eventfd_write t)) =
     (if efd_counter t < EFD_MAX then efd_counter t + 1 else efd_counter t)"
  by (auto simp add: eventfd_write_def emit_def)

lemma unknown_line_count_write: "count_list (unknown_line s) EventfdWrite = 0"
  by (cases s) simp_all

lemma moveToState_cases:
  "moveToState S t =
     Inr (efd_counter t < EFD_MAX,
          t\<lparr>desiredState := S,
            efd_counter := (if efd_counter t < EFD_MAX then efd_counter t + 1 else efd_counter t),
            stores := stores t @
              [(length (trace t) + 1 + length (request_logged S t), DesiredState, S)],
            trace := trace t @ [MutexLock] @ moveToState_events S t @ [MutexUnlock]\<rparr>)"
  by (simp add: moveToState_def moveToState_lock_cases prim_defs Let_def moveToState_events_def
        request_logged_def)

lemma moveToState_events_warning:
  "(filter is_warning (moveToState_events S t) \<noteq> []) = (desiredState t \<noteq> Invalid)"
  by (simp add: moveToState_events_def request_logged_def unknown_line_no_warning)

lemma moveToState_events_write: "count_list (moveToState_events S t) EventfdWrite = 1"
  by (simp add: moveToState_events_def request_logged_def unknown_line_count_write)

lemma wait_once_fields:
  "currentState (wait_once i t) = new_current i"
  "thread_joinable (wait_once i t) = thread_joinable t"
  "event_fd (wait_once i t) = event_fd t"
  "mHandler (wait_once i t) = mHandler t"
  "mEventfdMutex (wait_once i t) = mEventfdMutex t"
  "trace (wait_once i t) = trace t @ [MutexUnlock, MutexLock]"
  by (simp_all add: prim_defs)

lemma wait_for_fst:
  "fst (wait_for T (\<lambda>u. currentState u = S) ws t) =
     (S \<in> set (currentState t # map (new_current \<circ> snd) (within T ws)))"
proof (induction ws arbitrary: t)
  case Nil
  show ?case by auto
next
  case (Cons w ws)
  obtain at i where w: "w = (at, i)" by (cases w)
  show ?case
  proof (cases "currentState t = S")
    case True
    then show ?thesis by (simp add: w)
  next
    case False
    then have ne: "S \<noteq> currentState t" by blast
    show ?thesis
    proof (cases "T \<le> at")
      case True
      with False ne show ?thesis
        by (simp add: w wait_once_fields eq_commute [of S])
    next
      case False
      with \<open>currentState t \<noteq> S\<close> ne Cons.IH [of "wait_once i t"] show ?thesis
        by (simp add: w wait_once_fields)
    qed
  qed
qed

lemma wait_for_snd_current:
  "fst (wait_for T (\<lambda>u. currentState u = S) ws t) \<Longrightarrow>
     currentState (snd (wait_for T (\<lambda>u. currentState u = S) ws t)) = S"
proof (induction ws arbitrary: t)
  case Nil
  then show ?case by (simp split: if_splits)
next
  case (Cons w ws)
  obtain at i where w: "w = (at, i)" by (cases w)
  show ?case
  proof (cases "currentState t = S")
    case True
    then show ?thesis by (simp add: w)
  next
    case False
    note ne = this
    show ?thesis
    proof (cases "T \<le> at")
      case True
      with ne Cons.prems show ?thesis by (simp add: w)
    next
      case False
      with ne Cons.prems Cons.IH [of "wait_once i t"] show ?thesis
        by (simp add: w)
    qed
  qed
qed

lemma wait_for_fields:
  "thread_joinable (snd (wait_for T p ws t)) = thread_joinable t \<and>
   event_fd (snd (wait_for T p ws t)) = event_fd t \<and>
   mHandler (snd (wait_for T p ws t)) = mHandler t \<and>
   mEventfdMutex (snd (wait_for T p ws t)) = mEventfdMutex t"
proof (induction ws arbitrary: t)
  case Nil
  show ?case by (simp add: emit_def)
next
  case (Cons w ws)
  obtain at i where w: "w = (at, i)" by (cases w)
  from Cons.IH [of "wait_once i t"] show ?case
    by (simp add: w wait_once_fields)
qed

lemma wait_for_trace:
  "\<exists>es. trace (snd (wait_for T p ws t)) = trace t @ es \<and> set es \<subseteq> {MutexLock, MutexUnlock}"
proof (induction ws arbitrary: t)
  case Nil
  show ?case by (simp add: emit_def)
next
  case (Cons w ws)
  obtain at i where w: "w = (at, i)" by (cases w)
  from Cons.IH [of "wait_once i t"] obtain es where
    ih: "trace (snd (wait_for T p ws (wait_once i t))) = trace (wait_once i t) @ es"
        "set es \<subseteq> {MutexLock, MutexUnlock}"
    by blast
  have tr: "trace (wait_once i t) = trace t @ [MutexUnlock, MutexLock]"
    by (simp add: prim_defs)
  show ?case
  proof (cases "p t")
    case True
    then show ?thesis by (simp add: w)
  next
    case False
    note np = this
    show ?thesis
    proof (cases "T \<le> at")
      case True
      with np show ?thesis by (simp add: w tr)
    next
      case False
      have "trace (snd (wait_for T p (w # ws) t)) = trace t @ ([MutexUnlock, MutexLock] @ es)"
        using np False ih(1) by (simp add: w tr)
      moreover have "set ([MutexUnlock, MutexLock] @ es) \<subseteq> {MutexLock, MutexUnlock}"
        using ih(2) by auto
      ultimately show ?thesis by blast
    qed
  qed
qed

lemma unknown_line_no_wait: "WaitFor n \<notin> set (unknown_line s)"
  by (cases s) simp_all


lemma moveToState_events_no_wait: "WaitFor n \<notin> set (moveToState_events S t)"
  by (simp add: moveToState_events_def request_logged_def unknown_line_no_wait)



lemma moveToState_lock_events:
  "lk_mutex lock = Some (mEventfdMutex t) \<Longrightarrow> lk_owns lock \<Longrightarrow>
   moveToState_lock S lock t =
     Inr (efd_counter t < EFD_MAX,
          t\<lparr>desiredState := S,
            efd_counter := (if efd_counter t < EFD_MAX then efd_counter t + 1 else efd_counter t),
            stores := stores t @
              [(length (trace t) + length (request_logged S t), DesiredState, S)],
            trace := trace t @ moveToState_events S t\<rparr>)"
  by (simp add: moveToState_lock_cases)

lemma failed_transition_no_wait: "WaitFor n \<notin> set (failed_transition S t)"
  by (simp add: failed_transition_def unknown_line_no_wait)

lemma waitForState_lock_fail:
  assumes "lk_mutex lock = Some (mEventfdMutex t)" "lk_owns lock" "\<not> efd_counter t < EFD_MAX"
  shows "waitForState_lock ws S lock t =
           Inr (False, t\<lparr>desiredState := S,
                  stores := stores t @
                    [(length (trace t) + length (request_logged S t), DesiredState, S)],
                  trace := trace t @ moveToState_events S t @ failed_transition S t\<rparr>)"
  using assms
  by (simp add: waitForState_lock_def moveToState_lock_events failed_transition_def prim_defs)

lemma waitForState_lock_wait:
  assumes "lk_mutex lock = Some (mEventfdMutex t)" "lk_owns lock" "efd_counter t < EFD_MAX"
  shows "waitForState_lock ws S lock t =
           (if fst (wait_for 3000 (\<lambda>u. currentState u = S) ws (waiting S t))
            then Inr (True,
                   emit (ALOG DEBUG ''%s: Successfully switched to %s''
                           [Str ''waitForState'', Str (AsyncStateToChar S)])
                     (log_unknown S (snd (wait_for 3000 (\<lambda>u. currentState u = S) ws (waiting S t)))))
            else Inl (Fatal
              ''Timed out waiting for %s for %llds. Are you writing race conditions??''))"
  using assms
  by (simp add: waitForState_lock_def moveToState_lock_events waiting_def wait_timeout_def
        emit_def split_beta)

lemma waiting_fields:
  "currentState (waiting S t) = currentState t"
  "thread_joinable (waiting S t) = thread_joinable t"
  "event_fd (waiting S t) = event_fd t"
  "trace (waiting S t) = trace t @ moveToState_events S t @ [WaitFor wait_timeout]"
  by (simp_all add: waiting_def)

lemma held_lock_valid:
  "lk_mutex (held_lock t) = Some (mEventfdMutex t)" "lk_owns (held_lock t)"
  "held_lock (emit e t) = held_lock t"
  by (simp_all add: held_lock_def emit_def)

lemma wait_for_within: "wait_for T p (within T ws) t = wait_for T p ws t"
proof (induction ws arbitrary: t)
  case Nil
  show ?case by simp
next
  case (Cons w ws)
  obtain at i where w: "w = (at, i)" by (cases w)
  from Cons.IH [of "wait_once i t"] show ?case
    by (simp add: w)
qed

lemma waitForState_lock_within:
  "waitForState_lock (within 3000 ws) S lock t = waitForState_lock ws S lock t"
proof (cases "moveToState_lock S lock t")
  case (Inl f)
  then show ?thesis by (simp add: waitForState_lock_def)
next
  case (Inr r)
  obtain moved t1 where r: "r = (moved, t1)" by (cases r)
  have bound: "1000 * wait_timeout = 3000" by (simp add: wait_timeout_def)
  show ?thesis
    by (cases moved) (simp_all add: waitForState_lock_def Inr r bound wait_for_within)
qed

lemma waitForState_within: "waitForState (within 3000 ws) S t = waitForState ws S t"
  by (simp add: waitForState_def waitForState_lock_within)

lemma Thread_Stop_not_joinable:
  "\<not> thread_joinable t \<Longrightarrow>
     Thread_Stop ws t = Inr (t\<lparr>trace := trace t @ [MutexLock, MutexUnlock]\<rparr>)"
  by (simp add: Thread_Stop_def emit_def)

lemma Thread_Stop_joined: "Thread_Stop ws t = Inr t' \<Longrightarrow> \<not> thread_joinable t'"
  by (auto simp add: Thread_Stop_def emit_def Let_def split: if_splits sum.splits prod.splits)



lemma RunThread_switch_return: "fst (RunThread_switch cnt s t) = (s = Stop)"
  by (cases s) simp_all

lemma RunThread_loop_Cons:
  "RunThread_loop ((cnt, i) # sched) t =
     (case consumeState t of
        Inl f \<Rightarrow> Inl f
      | Inr (s, t1) \<Rightarrow>
          if s = Stop then Inr (Returned, snd (RunThread_switch cnt Stop (switched Stop t1)))
          else RunThread_loop sched (dispatched cnt i s t1))"
  by (auto simp add: switched_def dispatched_def Let_def split_beta RunThread_switch_return
        split: sum.splits)

lemma dispatched_current: "currentState (dispatched cnt i s t) = Idle"
  by (simp add: dispatched_def)

lemma dispatched_trace:
  "trace (dispatched cnt i s t) = trace (snd (RunThread_switch cnt s (switched s t)))"
  by (simp add: dispatched_def interfere_def)

lemma RunThread_loop_Returned:
  "RunThread_loop sched t = Inr (Returned, t') \<Longrightarrow>
     currentState t' = Stop \<and> last (trace t') = ALOG INFO ''Stopping Thread'' []"
proof (induction sched arbitrary: t)
  case Nil
  then show ?case by simp
next
  case (Cons e sched)
  obtain cnt i where e: "e = (cnt, i)" by (cases e)
  show ?case
  proof (cases "consumeState t")
    case (Inl f)
    with Cons.prems show ?thesis by (simp add: e RunThread_loop_Cons del: RunThread_loop.simps)
  next
    case (Inr r)
    obtain s t1 where r: "r = (s, t1)" by (cases r)
    show ?thesis
    proof (cases "s = Stop")
      case True
      from Inr r True have "currentState t1 = Stop"
        by (auto simp add: consumeState_cases split: if_splits)
      with Cons.prems Inr r True show ?thesis
        by (auto simp add: e RunThread_loop_Cons switched_def emit_def log_unknown_def
              simp del: RunThread_loop.simps)
    next
      case False
      with Cons.prems Inr r have "RunThread_loop sched (dispatched cnt i s t1) = Inr (Returned, t')"
        by (simp add: e RunThread_loop_Cons del: RunThread_loop.simps)
      then show ?thesis by (rule Cons.IH)
    qed
  qed
qed

lemma RunThread_loop_Looping:
  "RunThread_loop sched t = Inr (Looping, t') \<Longrightarrow> sched \<noteq> [] \<or> currentState t = Idle \<Longrightarrow>
     currentState t' = Idle"
proof (induction sched arbitrary: t)
  case Nil
  then show ?case by simp
next
  case (Cons e sched)
  obtain cnt i where e: "e = (cnt, i)" by (cases e)
  show ?case
  proof (cases "consumeState t")
    case (Inl f)
    with Cons.prems show ?thesis by (simp add: e RunThread_loop_Cons del: RunThread_loop.simps)
  next
    case (Inr r)
    obtain s t1 where r: "r = (s, t1)" by (cases r)
    show ?thesis
    proof (cases "s = Stop")
      case True
      with Cons.prems Inr r show ?thesis by (simp add: e RunThread_loop_Cons del: RunThread_loop.simps)
    next
      case False
      with Cons.prems Inr r have "RunThread_loop sched (dispatched cnt i s t1) = Inr (Looping, t')"
        by (simp add: e RunThread_loop_Cons del: RunThread_loop.simps)
      then show ?thesis by (rule Cons.IH) (simp add: dispatched_current)
    qed
  qed
qed

lemma consumeState_event_fd: "consumeState t = Inr (s, t1) \<Longrightarrow> event_fd t1 = event_fd t"
  by (auto simp add: consumeState_cases split: if_splits)

lemma moveToState_events_emit: "moveToState_events S (emit e t) = moveToState_events S t"
  by (simp add: moveToState_events_def request_logged_def emit_def)

lemma request_logged_emit: "request_logged S (emit e t) = request_logged S t"
  by (simp add: request_logged_def emit_def)

lemma failed_transition_emit: "failed_transition S (emit e t) = failed_transition S t"
  by (simp add: failed_transition_def emit_def)

lemma failed_transition_count_write: "count_list (failed_transition S t) EventfdWrite = 0"
  by (simp add: failed_transition_def unknown_line_count_write)

lemma moveToState_events_count_wait: "count_list (moveToState_events S t) (WaitFor n) = 0"
  by (simp add: count_list_0_iff moveToState_events_no_wait)

lemma wait_for_immediate: "p t \<Longrightarrow> wait_for T p ws t = (True, t)"
proof (cases ws)
  case Nil
  assume "p t"
  with Nil show ?thesis by simp
next
  case (Cons w ws')
  obtain at i where w: "w = (at, i)" by (cases w)
  assume "p t"
  with Cons show ?thesis by (simp add: w)
qed

lemma wait_for_stores: "stores (snd (wait_for T p ws t)) = stores t"
proof (induction ws arbitrary: t)
  case Nil
  show ?case by (simp add: emit_def)
next
  case (Cons w ws)
  obtain at i where w: "w = (at, i)" by (cases w)
  have "stores (wait_once i t) = stores t"
    by (simp add: prim_defs)
  with Cons.IH [of "wait_once i t"] show ?case
    by (simp add: w)
qed

lemma waiting_shared:
  "desiredState (waiting S t) = S"
  "efd_counter (waiting S t) = efd_counter t + 1"
  "stores (waiting S t) =
     stores t @ [(length (trace t) + length (request_logged S t), DesiredState, S)]"
  by (simp_all add: waiting_def)

lemma wait_for_found:
  "currentState t \<noteq> S \<Longrightarrow>
   find (\<lambda>w. new_current (snd w) = S) (within T ws) = Some (at, i) \<Longrightarrow>
     desiredState (snd (wait_for T (\<lambda>u. currentState u = S) ws t)) = new_desired i \<and>
     efd_counter (snd (wait_for T (\<lambda>u. currentState u = S) ws t)) = new_counter i"
proof (induction ws arbitrary: t)
  case Nil
  then show ?case by simp
next
  case (Cons w ws)
  obtain at0 i0 where w: "w = (at0, i0)" by (cases w)
  have once: "currentState (wait_once i0 t) = new_current i0"
    "desiredState (wait_once i0 t) = new_desired i0"
    "efd_counter (wait_once i0 t) = new_counter i0"
    by (simp_all add: prim_defs)
  show ?case
  proof (cases "new_current i0 = S")
    case True
    with Cons.prems have "i = i0" by (simp add: w)
    moreover have "wait_for T (\<lambda>u. currentState u = S) (w # ws) t = (True, wait_once i0 t)"
      using Cons.prems(1) True by (simp add: w once wait_for_immediate)
    ultimately show ?thesis by (simp add: once)
  next
    case False
    show ?thesis
    proof (cases "T \<le> at0")
      case True
      with Cons.prems False show ?thesis by (simp add: w)
    next
      case late: False
      from Cons.prems False late
      have "find (\<lambda>w. new_current (snd w) = S) (within T ws) = Some (at, i)"
        by (simp add: w)
      with False Cons.IH [of "wait_once i0 t"]
      have "desiredState (snd (wait_for T (\<lambda>u. currentState u = S) ws (wait_once i0 t))) =
              new_desired i \<and>
            efd_counter (snd (wait_for T (\<lambda>u. currentState u = S) ws (wait_once i0 t))) =
              new_counter i"
        by (simp add: once)
      with Cons.prems(1) late show ?thesis by (simp add: w)
    qed
  qed
qed

lemma seen_found:
  assumes "S \<in> set (currentState t # map (new_current \<circ> snd) (within T ws))"
    and "currentState t \<noteq> S"
  shows "\<exists>at i. find (\<lambda>w. new_current (snd w) = S) (within T ws) = Some (at, i)"
proof -
  from assms have "\<exists>w \<in> set (within T ws). new_current (snd w) = S" by auto
  then have "find (\<lambda>w. new_current (snd w) = S) (within T ws) \<noteq> None"
    unfolding find_None_iff by blast
  then show ?thesis by auto
qed

lemma waiting_kept:
  "mHandler (waiting S t) = mHandler t" "mEventfdMutex (waiting S t) = mEventfdMutex t"
  by (simp_all add: waiting_def)

lemma moveToState_events_nonempty: "moveToState_events S t \<noteq> []"
  by (simp add: moveToState_events_def)

lemma sleeps_only:
  assumes "set es \<subseteq> {MutexLock, MutexUnlock}"
  shows "EventfdWrite \<notin> set es" "WaitFor n \<notin> set es"
  using assms by auto

subsection \<open>The claims\<close>

text \<open>
  C1, as the code has it. For every state \<open>S\<close>, \<^verbatim>\<open>waitForState(S)\<close> has three outcomes.
  \<^item> When the write to the eventfd fails it returns \<open>false\<close> at once: it has recorded the
    request in \<open>desiredState\<close>, has attempted the one write, has not waited, and its result
    does not depend on the wake-ups.
  \<^item> When the write succeeds it waits, and re-checks \<open>currentState = S\<close> on entry and at each
    of its wake-ups, up to the one that reports the timeout of 3000 milliseconds. When one
    of these re-checks finds \<open>currentState = S\<close> it returns \<open>true\<close> with \<open>currentState = S\<close>,
    after one store of \<open>S\<close> into \<open>desiredState\<close>, one write and, after the write, one wait,
    all between taking the mutex and releasing it for good. The other shared fields are as
    the call left them when it did not sleep, and as the others left them at the wake-up
    that found \<open>S\<close> when it did.
  \<^item> When the write succeeds and none of these re-checks finds \<open>currentState = S\<close>, the
    process aborts.
  What the other threads do after the wake-up that reports the timeout has no influence.
\<close>

theorem waitForState_outcomes:
  "(fst (eventfd_write t) \<noteq> 0 \<longrightarrow>
      (\<exists>t'. waitForState ws S t = Inr (False, t') \<and>
            desiredState t' = S \<and> currentState t' = currentState t \<and>
            efd_counter t' = efd_counter t \<and>
            mHandler t' = mHandler t \<and> event_fd t' = event_fd t \<and>
            mEventfdMutex t' = mEventfdMutex t \<and> thread_joinable t' = thread_joinable t \<and>
            map snd (stores_since t t') = [(DesiredState, S)] \<and>
            hd (events_since t t') = MutexLock \<and> last (events_since t t') = MutexUnlock \<and>
            count_list (events_since t t') EventfdWrite = 1 \<and>
            WaitFor wait_timeout \<notin> set (events_since t t') \<and>
            waitForState [] S t = Inr (False, t'))) \<and>
   (fst (eventfd_write t) = 0 \<and>
    S \<in> set (currentState t # map (new_current \<circ> snd) (within 3000 ws)) \<longrightarrow>
      (\<exists>t' a b. waitForState ws S t = Inr (True, t') \<and> currentState t' = S \<and>
            mHandler t' = mHandler t \<and> event_fd t' = event_fd t \<and>
            mEventfdMutex t' = mEventfdMutex t \<and> thread_joinable t' = thread_joinable t \<and>
            map snd (stores_since t t') = [(DesiredState, S)] \<and>
            events_since t t' = a @ WaitFor wait_timeout # b \<and>
            hd a = MutexLock \<and> last b = MutexUnlock \<and>
            count_list a EventfdWrite = 1 \<and> WaitFor wait_timeout \<notin> set a \<and>
            EventfdWrite \<notin> set b \<and> WaitFor wait_timeout \<notin> set b \<and>
            (currentState t = S \<longrightarrow>
               desiredState t' = S \<and> efd_counter t' = efd_counter t + 1) \<and>
            (currentState t \<noteq> S \<longrightarrow>
               (\<exists>at i. find (\<lambda>w. new_current (snd w) = S) (within 3000 ws) = Some (at, i) \<and>
                  desiredState t' = new_desired i \<and> efd_counter t' = new_counter i)))) \<and>
   (fst (eventfd_write t) = 0 \<and>
    S \<notin> set (currentState t # map (new_current \<circ> snd) (within 3000 ws)) \<longrightarrow>
      waitForState ws S t =
        Inl (Fatal ''Timed out waiting for %s for %llds. Are you writing race conditions??'')) \<and>
   waitForState (within 3000 ws) S t = waitForState ws S t"
proof (intro conjI impI)
  show "waitForState (within 3000 ws) S t = waitForState ws S t"
    by (rule waitForState_within)
next
  assume "fst (eventfd_write t) \<noteq> 0"
  then have full: "\<not> efd_counter (emit MutexLock t) < EFD_MAX"
    by (simp add: eventfd_write_rc emit_def)
  have "\<And>ws. waitForState ws S t =
      Inr (False, emit MutexUnlock ((emit MutexLock t)\<lparr>desiredState := S,
             stores := stores (emit MutexLock t) @
               [(length (trace (emit MutexLock t)) + length (request_logged S (emit MutexLock t)),
                 DesiredState, S)],
             trace := trace (emit MutexLock t) @ moveToState_events S (emit MutexLock t) @
                      failed_transition S (emit MutexLock t)\<rparr>))"
    unfolding waitForState_def Let_def
    by (subst waitForState_lock_fail [OF _ _ full]) (simp_all add: held_lock_valid emit_def)
  then show "\<exists>t'. waitForState ws S t = Inr (False, t') \<and>
            desiredState t' = S \<and> currentState t' = currentState t \<and>
            efd_counter t' = efd_counter t \<and>
            mHandler t' = mHandler t \<and> event_fd t' = event_fd t \<and>
            mEventfdMutex t' = mEventfdMutex t \<and> thread_joinable t' = thread_joinable t \<and>
            map snd (stores_since t t') = [(DesiredState, S)] \<and>
            hd (events_since t t') = MutexLock \<and> last (events_since t t') = MutexUnlock \<and>
            count_list (events_since t t') EventfdWrite = 1 \<and>
            WaitFor wait_timeout \<notin> set (events_since t t') \<and>
            waitForState [] S t = Inr (False, t')"
    by (simp add: events_since_def stores_since_def emit_def moveToState_events_no_wait
          failed_transition_no_wait moveToState_events_write failed_transition_count_write)
next
  assume a: "fst (eventfd_write t) = 0 \<and>
    S \<in> set (currentState t # map (new_current \<circ> snd) (within 3000 ws))"
  then have room: "efd_counter (emit MutexLock t) < EFD_MAX"
    by (simp add: eventfd_write_rc emit_def)
  let ?t0 = "waiting S (emit MutexLock t)"
  let ?w = "wait_for 3000 (\<lambda>u. currentState u = S) ws ?t0"
  let ?done = "ALOG DEBUG ''%s: Successfully switched to %s''
                 [Str ''waitForState'', Str (AsyncStateToChar S)]"
  let ?t' = "emit MutexUnlock (emit ?done (log_unknown S (snd ?w)))"
  have cur: "currentState ?t0 = currentState t"
    by (simp add: waiting_fields emit_def)
  from a have ok: "fst ?w"
    by (simp only: wait_for_fst cur)
  then have cs: "currentState (snd ?w) = S"
    by (rule wait_for_snd_current)
  obtain es where tr: "trace (snd ?w) = trace ?t0 @ es"
    and sub: "set es \<subseteq> {MutexLock, MutexUnlock}"
    using wait_for_trace [of 3000 "\<lambda>u. currentState u = S" ws ?t0] by blast
  have st: "stores (snd ?w) = stores ?t0"
    by (rule wait_for_stores)
  let ?a = "MutexLock # moveToState_events S t"
  let ?b = "es @ unknown_line S @ [?done, MutexUnlock]"
  have res: "waitForState ws S t = Inr (True, ?t')"
    using ok unfolding waitForState_def Let_def
    by (subst waitForState_lock_wait [OF _ _ room]) (simp_all add: held_lock_valid emit_def)
  have f1: "currentState ?t' = S"
    using cs by (simp add: emit_def log_unknown_def)
  have f2: "mHandler ?t' = mHandler t" "event_fd ?t' = event_fd t"
    "mEventfdMutex ?t' = mEventfdMutex t" "thread_joinable ?t' = thread_joinable t"
    using wait_for_fields [of 3000 "\<lambda>u. currentState u = S" ws ?t0]
    by (simp_all add: emit_def log_unknown_def waiting_fields waiting_kept)
  have f3: "map snd (stores_since t ?t') = [(DesiredState, S)]"
    using st by (simp add: stores_since_def emit_def log_unknown_def waiting_shared)
  have f4: "events_since t ?t' = ?a @ WaitFor wait_timeout # ?b"
    using tr moveToState_events_emit [of S MutexLock t]
    by (simp add: events_since_def emit_def log_unknown_def waiting_fields)
  have f5: "hd ?a = MutexLock" "last ?b = MutexUnlock"
    by simp_all
  have f6: "count_list ?a EventfdWrite = 1"
    by (simp add: moveToState_events_write)
  have f7: "WaitFor wait_timeout \<notin> set ?a"
    by (simp add: moveToState_events_no_wait)
  have f8: "EventfdWrite \<notin> set ?b"
    using sleeps_only(1) [OF sub] by (simp add: unknown_line_no_write)
  have f9: "WaitFor wait_timeout \<notin> set ?b"
    using sleeps_only(2) [OF sub] by (simp add: unknown_line_no_wait)
  have f10: "currentState t = S \<longrightarrow>
      desiredState ?t' = S \<and> efd_counter ?t' = efd_counter t + 1"
  proof
    assume "currentState t = S"
    then have "currentState ?t0 = S" by (simp add: cur)
    then have "?w = (True, ?t0)" by (rule wait_for_immediate)
    then show "desiredState ?t' = S \<and> efd_counter ?t' = efd_counter t + 1"
      by (simp add: emit_def log_unknown_def waiting_shared)
  qed
  have f11: "currentState t \<noteq> S \<longrightarrow>
      (\<exists>at i. find (\<lambda>w. new_current (snd w) = S) (within 3000 ws) = Some (at, i) \<and>
         desiredState ?t' = new_desired i \<and> efd_counter ?t' = new_counter i)"
  proof
    assume ne: "currentState t \<noteq> S"
    with a obtain at i where
      found: "find (\<lambda>w. new_current (snd w) = S) (within 3000 ws) = Some (at, i)"
      using seen_found [of S t 3000 ws] by blast
    from ne have "currentState ?t0 \<noteq> S" by (simp add: cur)
    from wait_for_found [OF this found]
    have d: "desiredState ?t' = new_desired i" and e: "efd_counter ?t' = new_counter i"
      by (simp_all add: emit_def log_unknown_def)
    from found d e show "\<exists>at i. find (\<lambda>w. new_current (snd w) = S) (within 3000 ws) = Some (at, i) \<and>
         desiredState ?t' = new_desired i \<and> efd_counter ?t' = new_counter i"
      by (intro exI conjI) assumption+
  qed
  show "\<exists>t' a b. waitForState ws S t = Inr (True, t') \<and> currentState t' = S \<and>
            mHandler t' = mHandler t \<and> event_fd t' = event_fd t \<and>
            mEventfdMutex t' = mEventfdMutex t \<and> thread_joinable t' = thread_joinable t \<and>
            map snd (stores_since t t') = [(DesiredState, S)] \<and>
            events_since t t' = a @ WaitFor wait_timeout # b \<and>
            hd a = MutexLock \<and> last b = MutexUnlock \<and>
            count_list a EventfdWrite = 1 \<and> WaitFor wait_timeout \<notin> set a \<and>
            EventfdWrite \<notin> set b \<and> WaitFor wait_timeout \<notin> set b \<and>
            (currentState t = S \<longrightarrow>
               desiredState t' = S \<and> efd_counter t' = efd_counter t + 1) \<and>
            (currentState t \<noteq> S \<longrightarrow>
               (\<exists>at i. find (\<lambda>w. new_current (snd w) = S) (within 3000 ws) = Some (at, i) \<and>
                  desiredState t' = new_desired i \<and> efd_counter t' = new_counter i))"
    by (intro exI [of _ ?t'] exI [of _ ?a] exI [of _ ?b] conjI)
       (rule res f1 f2 f3 f4 f5 f6 f7 f8 f9 f10 f11)+
next
  assume a: "fst (eventfd_write t) = 0 \<and>
    S \<notin> set (currentState t # map (new_current \<circ> snd) (within 3000 ws))"
  then have room: "efd_counter (emit MutexLock t) < EFD_MAX"
    by (simp add: eventfd_write_rc emit_def)
  let ?w = "wait_for 3000 (\<lambda>u. currentState u = S) ws (waiting S (emit MutexLock t))"
  have cur: "currentState (waiting S (emit MutexLock t)) = currentState t"
    by (simp add: waiting_fields emit_def)
  from a have "\<not> fst ?w"
    by (simp only: wait_for_fst cur not_False_eq_True)
  then show "waitForState ws S t =
        Inl (Fatal ''Timed out waiting for %s for %llds. Are you writing race conditions??'')"
    unfolding waitForState_def Let_def
    by (subst waitForState_lock_wait [OF _ _ room]) (simp_all add: held_lock_valid emit_def)
qed

theorem waitForState_outcomes_witness:
  "fst (eventfd_write saturated) \<noteq> 0 \<and>
   (\<exists>t'. waitForState [(10, worker_enters Pause)] Pause saturated = Inr (False, t') \<and>
      desiredState t' = Pause \<and> desiredState saturated = Invalid \<and>
      map snd (stores_since saturated t') = [(DesiredState, Pause)] \<and>
      count_list (events_since saturated t') EventfdWrite = 1 \<and>
      WaitFor wait_timeout \<notin> set (events_since saturated t') \<and>
      waitForState [] Pause saturated = Inr (False, t')) \<and>
   fst (eventfd_write started) = 0 \<and>
   Pause \<in> set (currentState started #
                map (new_current \<circ> snd) (within 3000 [(10, worker_enters Pause)])) \<and>
   (\<exists>t' a b. waitForState [(10, worker_enters Pause)] Pause started = Inr (True, t') \<and>
      currentState t' = Pause \<and>
      map snd (stores_since started t') = [(DesiredState, Pause)] \<and>
      events_since started t' = a @ WaitFor wait_timeout # b \<and>
      hd a = MutexLock \<and> last b = MutexUnlock \<and>
      count_list a EventfdWrite = 1 \<and> WaitFor wait_timeout \<notin> set a \<and>
      EventfdWrite \<notin> set b \<and> WaitFor wait_timeout \<notin> set b) \<and>
   Pause \<notin> set (currentState started #
                map (new_current \<circ> snd)
                  (within 3000 [(3000, worker_stalls Pause), (3001, worker_enters Pause)])) \<and>
   waitForState [(3000, worker_stalls Pause), (3001, worker_enters Pause)] Pause started =
     Inl (Fatal ''Timed out waiting for %s for %llds. Are you writing race conditions??'') \<and>
   waitForState [(3000, worker_stalls Pause)] Pause started =
     waitForState [(3000, worker_stalls Pause), (3001, worker_enters Pause)] Pause started"
proof -
  let ?soon = "[(10, worker_enters Pause)]"
  let ?late = "[(3000, worker_stalls Pause), (3001, worker_enters Pause)]"
  have full: "fst (eventfd_write saturated) \<noteq> 0"
    by (simp add: example_defs eventfd_write_def EFD_MAX_def)
  have room: "fst (eventfd_write started) = 0"
    by (simp add: example_defs eventfd_write_def EFD_MAX_def)
  have seen: "Pause \<in> set (currentState started # map (new_current \<circ> snd) (within 3000 ?soon))"
    by (simp add: example_defs)
  have unseen: "Pause \<notin> set (currentState started # map (new_current \<circ> snd) (within 3000 ?late))"
    by (simp add: example_defs)
  have inv: "desiredState saturated = Invalid"
    by (simp add: example_defs)
  have cut: "within 3000 ?late = [(3000, worker_stalls Pause)]"
    by simp
  from waitForState_outcomes [of saturated ?soon Pause, THEN conjunct1, THEN mp, OF full]
  obtain t1 where failed: "waitForState ?soon Pause saturated = Inr (False, t1)"
    "desiredState t1 = Pause"
    "map snd (stores_since saturated t1) = [(DesiredState, Pause)]"
    "count_list (events_since saturated t1) EventfdWrite = 1"
    "WaitFor wait_timeout \<notin> set (events_since saturated t1)"
    "waitForState [] Pause saturated = Inr (False, t1)"
    by (elim exE conjE) (rule that)
  from waitForState_outcomes [of started ?soon Pause, THEN conjunct2, THEN conjunct1, THEN mp,
      OF conjI, OF room seen]
  obtain t2 a b where succ: "waitForState ?soon Pause started = Inr (True, t2)"
    "currentState t2 = Pause"
    "map snd (stores_since started t2) = [(DesiredState, Pause)]"
    "events_since started t2 = a @ WaitFor wait_timeout # b"
    "hd a = MutexLock" "last b = MutexUnlock"
    "count_list a EventfdWrite = 1" "WaitFor wait_timeout \<notin> set a"
    "EventfdWrite \<notin> set b" "WaitFor wait_timeout \<notin> set b"
    by (elim exE conjE) (rule that)
  from waitForState_outcomes [of started ?late Pause, THEN conjunct2, THEN conjunct2,
      THEN conjunct1, THEN mp, OF conjI, OF room unseen]
  have abort: "waitForState ?late Pause started =
     Inl (Fatal ''Timed out waiting for %s for %llds. Are you writing race conditions??'')" .
  from waitForState_outcomes [of started ?late Pause, THEN conjunct2, THEN conjunct2,
      THEN conjunct2]
  have same: "waitForState (within 3000 ?late) Pause started = waitForState ?late Pause started" .
  from same have same': "waitForState [(3000, worker_stalls Pause)] Pause started =
      waitForState ?late Pause started"
    by (simp only: cut)
  show ?thesis
    by (intro conjI exI [of _ t1] exI [of _ t2] exI [of _ a] exI [of _ b])
       (rule full room seen unseen inv failed succ abort same')+
qed

text \<open>
  C1 as the claim words it does not hold: that the worker has entered \<open>S\<close> within the bound
  is not enough for success. The controller requests \<open>Authenticate\<close> and goes to sleep. The
  worker finds what the controller has left, consumes the request and so enters
  \<open>Authenticate\<close>, under the mutex and with a broadcast; the handler's operation returns,
  and the worker resets \<open>currentState\<close> to \<open>Idle\<close>, outside the mutex and without a
  broadcast. The controller, woken by the broadcast, runs again 10 milliseconds after it
  went to sleep, finds \<open>Idle\<close>, sleeps again, finds \<open>Idle\<close> at the timeout, and the process
  aborts.
\<close>

theorem waitForState_entered_counterexample:
  "shared (waiting Authenticate (emit MutexLock started)) = shared (requested Authenticate) \<and>
   consumeState (requested Authenticate) = Inr (Authenticate, consumed Authenticate) \<and>
   currentState (consumed Authenticate) = Authenticate \<and>
   RunThread_loop [(0, shared (consumed Authenticate))] (requested Authenticate) =
     Inr (Looping, authenticated) \<and>
   currentState authenticated = Idle \<and>
   stores authenticated =
     [(2, CurrentState, Authenticate), (2, DesiredState, Invalid), (6, CurrentState, Idle)] \<and>
   under_lock (trace authenticated) 2 \<and> \<not> under_lock (trace authenticated) 6 \<and>
   waitForState [(10, shared authenticated), (3000, shared authenticated)] Authenticate started =
     Inl (Fatal ''Timed out waiting for %s for %llds. Are you writing race conditions??'')"
  by (simp add: example_defs shared_def waiting_def under_lock_def consumeState_def
        waitForState_def waitForState_lock_def moveToState_lock_def wait_timeout_def
        prim_defs Let_def EFD_MAX_def)

text \<open>
  C2. On every object on which \<^verbatim>\<open>consumeState\<close> does not abort (it aborts exactly when a
  signal is pending and \<open>desiredState\<close> is \<open>Invalid\<close>, see C3) the call returns the consumed
  state \<open>s\<close>, and the object it leaves is the one it found with the eventfd drained,
  \<open>currentState\<close> set to \<open>s\<close>, \<open>desiredState\<close> set to \<open>Invalid\<close>, and the events lock, read,
  notify, unlock added. Both assignments are made while the calling thread holds the mutex,
  and so is the broadcast. The worker's own next steps, the dispatch and the reset of
  \<open>currentState\<close>, assign to \<open>currentState\<close> only and leave \<open>desiredState\<close> at \<open>Invalid\<close>.
\<close>

theorem consumeState_atomic:
  assumes "efd_counter t = 0 \<or> desiredState t \<noteq> Invalid"
  shows "\<exists>s t'. consumeState t = Inr (s, t') \<and>
           s = (if efd_counter t = 0 then Idle else desiredState t) \<and>
           t' = t\<lparr>efd_counter := 0, currentState := s, desiredState := Invalid,
                  stores := stores t @ [(length (trace t) + 2, CurrentState, s),
                                        (length (trace t) + 2, DesiredState, Invalid)],
                  trace := trace t @ [MutexLock, EventfdRead, NotifyAll, MutexUnlock]\<rparr> \<and>
           (\<forall>(p, f, v) \<in> set (stores_since t t').
              under_lock (events_since t t') (p - length (trace t))) \<and>
           events_since t t' ! 2 = NotifyAll \<and> under_lock (events_since t t') 2 \<and>
           (\<forall>cnt. desiredState (store CurrentState Idle (snd (RunThread_switch cnt s t'))) =
                    Invalid \<and>
                  map snd (stores_since t'
                             (store CurrentState Idle (snd (RunThread_switch cnt s t')))) =
                    [(CurrentState, Idle)])"
proof -
  let ?s = "if efd_counter t = 0 then Idle else desiredState t"
  let ?t' = "t\<lparr>efd_counter := 0, currentState := ?s, desiredState := Invalid,
                stores := stores t @ [(length (trace t) + 2, CurrentState, ?s),
                                      (length (trace t) + 2, DesiredState, Invalid)],
                trace := trace t @ [MutexLock, EventfdRead, NotifyAll, MutexUnlock]\<rparr>"
  have drained: "efd_counter t = 0 \<Longrightarrow> t\<lparr>efd_counter := 0\<rparr> = t"
    by (cases t) simp
  have res: "consumeState t = Inr (?s, ?t')"
    using assms drained by (auto simp add: consumeState_cases)
  have "\<forall>(p, f, v) \<in> set (stores_since t ?t').
          under_lock (events_since t ?t') (p - length (trace t))"
    by (simp add: stores_since_def events_since_def under_lock_def)
  moreover have "events_since t ?t' ! 2 = NotifyAll" "under_lock (events_since t ?t') 2"
    by (simp_all add: events_since_def under_lock_def)
  moreover have "\<forall>cnt. desiredState (store CurrentState Idle (snd (RunThread_switch cnt ?s ?t'))) =
                    Invalid \<and>
                  map snd (stores_since ?t'
                             (store CurrentState Idle (snd (RunThread_switch cnt ?s ?t')))) =
                    [(CurrentState, Idle)]"
    by (simp add: RunThread_switch_desired RunThread_switch_stores stores_since_def)
  ultimately show ?thesis
    using res by blast
qed

theorem consumeState_atomic_witness:
  "desiredState (requested Pause) \<noteq> Invalid \<and>
   consumeState (requested Pause) = Inr (Pause, consumed Pause) \<and>
   efd_counter started = 0 \<and>
   consumeState started = Inr (Idle, consumed Idle) \<and>
   stores_since (requested Pause) (consumed Pause) =
     [(2, CurrentState, Pause), (2, DesiredState, Invalid)] \<and>
   events_since (requested Pause) (consumed Pause) =
     [MutexLock, EventfdRead, NotifyAll, MutexUnlock] \<and>
   under_lock [MutexLock, EventfdRead, NotifyAll, MutexUnlock] 2 \<and>
   \<not> under_lock [MutexLock, EventfdRead, NotifyAll, MutexUnlock] 4"
proof -
  have h1: "efd_counter (requested Pause) = 0 \<or> desiredState (requested Pause) \<noteq> Invalid"
    by (simp add: example_defs)
  have h2: "efd_counter started = 0 \<or> desiredState started \<noteq> Invalid"
    by (simp add: example_defs)
  from consumeState_atomic [OF h1] consumeState_atomic [OF h2]
  show ?thesis
    by (auto simp add: example_defs stores_since_def events_since_def under_lock_def)
qed

text \<open>
  C3. In \<^verbatim>\<open>consumeState\<close>, when no wake signal is pending (the eventfd counter is
  zero) the call returns \<open>Idle\<close>, having only taken the mutex, read, notified and released;
  when a signal is pending and \<open>desiredState\<close> is \<open>Invalid\<close> the process aborts; when a
  signal is pending and \<open>desiredState\<close> is a request, that request is returned. The call
  never returns \<open>Invalid\<close>.
\<close>

theorem consumeState_default_and_invalid:
  "(efd_counter t = 0 \<longrightarrow>
      (\<exists>t'. consumeState t = Inr (Idle, t') \<and>
            trace t' = trace t @ [MutexLock, EventfdRead, NotifyAll, MutexUnlock])) \<and>
   (efd_counter t \<noteq> 0 \<and> desiredState t = Invalid \<longrightarrow>
      consumeState t = Inl (Fatal ''Requested state is invalid!'')) \<and>
   (efd_counter t \<noteq> 0 \<and> desiredState t \<noteq> Invalid \<longrightarrow>
      (\<exists>t'. consumeState t = Inr (desiredState t, t'))) \<and>
   (\<forall>s t'. consumeState t = Inr (s, t') \<longrightarrow> s \<noteq> Invalid)"
  by (simp add: consumeState_cases)

theorem consumeState_default_and_invalid_witness:
  "efd_counter started = 0 \<and>
   (\<exists>t'. consumeState started = Inr (Idle, t') \<and>
      trace t' = trace started @ [MutexLock, EventfdRead, NotifyAll, MutexUnlock]) \<and>
   efd_counter (requested Invalid) \<noteq> 0 \<and> desiredState (requested Invalid) = Invalid \<and>
   consumeState (requested Invalid) = Inl (Fatal ''Requested state is invalid!'') \<and>
   efd_counter (requested Enroll) \<noteq> 0 \<and> desiredState (requested Enroll) \<noteq> Invalid \<and>
   (\<exists>t'. consumeState (requested Enroll) = Inr (desiredState (requested Enroll), t'))"
  using consumeState_default_and_invalid [of started]
    consumeState_default_and_invalid [of "requested Invalid"]
    consumeState_default_and_invalid [of "requested Enroll"]
  by (simp add: example_defs)

text \<open>
  C4. For every state \<open>S\<close> and every coordinator, \<^verbatim>\<open>moveToState(S)\<close> returns (it never
  aborts), with \<open>desiredState = S\<close> whatever was pending, with a warning in the log exactly
  when a request was still pending, with exactly one write to the eventfd, and its result
  is whether that write succeeded. The same holds of \<^verbatim>\<open>moveToState(S, lock)\<close> when the
  lock handle owns the coordinator's mutex.
\<close>

theorem moveToState_last_write_wins:
  "(\<exists>t'. moveToState S t = Inr (fst (eventfd_write t) = 0, t') \<and>
        desiredState t' = S \<and> currentState t' = currentState t \<and>
        efd_counter t' = efd_counter (snd (eventfd_write t)) \<and>
        (filter is_warning (events_since t t') \<noteq> []) = (desiredState t \<noteq> Invalid) \<and>
        count_list (events_since t t') EventfdWrite = 1) \<and>
   (lk_mutex lock = Some (mEventfdMutex t) \<and> lk_owns lock \<longrightarrow>
      (\<exists>t'. moveToState_lock S lock t = Inr (fst (eventfd_write t) = 0, t') \<and>
        desiredState t' = S \<and> currentState t' = currentState t \<and>
        efd_counter t' = efd_counter (snd (eventfd_write t)) \<and>
        (filter is_warning (events_since t t') \<noteq> []) = (desiredState t \<noteq> Invalid) \<and>
        count_list (events_since t t') EventfdWrite = 1))"
  using moveToState_events_warning [of S t] moveToState_events_write [of S t]
  by (simp add: moveToState_cases moveToState_lock_events eventfd_write_rc eventfd_write_counter
        events_since_def)

theorem moveToState_last_write_wins_witness:
  "(\<exists>t'. moveToState Stop (requested Authenticate) = Inr (True, t') \<and>
      desiredState t' = Stop \<and> efd_counter t' = 2 \<and>
      filter is_warning (events_since (requested Authenticate) t') \<noteq> []) \<and>
   (\<exists>t'. moveToState Pause started = Inr (True, t') \<and>
      desiredState t' = Pause \<and> efd_counter t' = 1 \<and>
      filter is_warning (events_since started t') = []) \<and>
   lk_mutex (held_lock started) = Some (mEventfdMutex started) \<and> lk_owns (held_lock started) \<and>
   (\<exists>t'. moveToState_lock Pause (held_lock started) started = Inr (True, t') \<and>
      desiredState t' = Pause \<and> efd_counter t' = 1)"
  using moveToState_last_write_wins [of Stop "requested Authenticate" "held_lock started"]
    moveToState_last_write_wins [of Pause started "held_lock started"]
  by (auto simp add: example_defs eventfd_write_def EFD_MAX_def emit_def held_lock_def)

text \<open>
  C5. In an iteration of the worker loop whose \<^verbatim>\<open>consumeState\<close> returns \<open>s\<close>:
  \<^item> if \<open>s\<close> is \<open>Stop\<close>, \<^verbatim>\<open>RunThread\<close> returns whatever the rest of the schedule is, and
    the last thing the worker did is the log line of the \<open>Stop\<close> branch;
  \<^item> otherwise the loop goes on from a state with \<open>currentState = Idle\<close>, after the dispatch
    of \<open>s\<close>: the handler's operation for \<open>Idle\<close>, \<open>Authenticate\<close> and \<open>Enroll\<close>, a poll
    without timeout for \<open>Pause\<close>, the warning for any other value.
  Whenever the loop is still running after an iteration \<open>currentState\<close> is \<open>Idle\<close>, and
  whenever it has returned \<open>currentState\<close> is \<open>Stop\<close>.
\<close>

theorem RunThread_iteration:
  assumes "consumeState t = Inr (s, t1)"
  shows "(s = Stop \<longrightarrow>
           RunThread_loop ((cnt, i) # sched) t =
             Inr (Returned,
                  t1\<lparr>trace := trace t1 @
                       [ALOG DEBUG ''%s: Switched to state %s'' [Str ''RunThread'', Str ''Stop''],
                        ALOG INFO ''Stopping Thread'' []]\<rparr>)) \<and>
         (s \<noteq> Stop \<longrightarrow>
           (\<exists>t2. RunThread_loop ((cnt, i) # sched) t = RunThread_loop sched t2 \<and>
              currentState t2 = Idle \<and>
              (s = Idle \<longrightarrow> last (trace t2) = IdleAsync) \<and>
              (s = Pause \<longrightarrow> PollFd (event_fd t) (- 1) \<in> set (events_since t1 t2)) \<and>
              (s = Authenticate \<longrightarrow> last (trace t2) = AuthenticateAsync) \<and>
              (s = Enroll \<longrightarrow> last (trace t2) = EnrollAsync) \<and>
              (s \<notin> {Idle, Pause, Authenticate, Enroll} \<longrightarrow>
                 last (trace t2) =
                   ALOG WARN ''Unexpected AsyncState %s'' [Str (AsyncStateToChar s)]))) \<and>
         (\<forall>u'. RunThread_loop ((cnt, i) # sched) t = Inr (Looping, u') \<longrightarrow>
            currentState u' = Idle) \<and>
         (\<forall>u'. RunThread_loop ((cnt, i) # sched) t = Inr (Returned, u') \<longrightarrow>
            currentState u' = Stop \<and> last (trace u') = ALOG INFO ''Stopping Thread'' [])"
proof (intro conjI allI impI)
  assume "s = Stop"
  with assms show "RunThread_loop ((cnt, i) # sched) t =
             Inr (Returned,
                  t1\<lparr>trace := trace t1 @
                       [ALOG DEBUG ''%s: Switched to state %s'' [Str ''RunThread'', Str ''Stop''],
                        ALOG INFO ''Stopping Thread'' []]\<rparr>)"
    by (simp add: RunThread_loop_Cons switched_def emit_def log_unknown_def
          del: RunThread_loop.simps)
next
  assume ns: "s \<noteq> Stop"
  let ?t2 = "dispatched cnt i s t1"
  have fd: "event_fd t1 = event_fd t"
    using assms by (rule consumeState_event_fd)
  have "RunThread_loop ((cnt, i) # sched) t = RunThread_loop sched ?t2"
    using assms ns by (simp add: RunThread_loop_Cons del: RunThread_loop.simps)
  moreover have "currentState ?t2 = Idle"
    by (rule dispatched_current)
  moreover have "s = Idle \<longrightarrow> last (trace ?t2) = IdleAsync"
    by (simp add: dispatched_trace emit_def)
  moreover have "s = Pause \<longrightarrow> PollFd (event_fd t) (- 1) \<in> set (events_since t1 ?t2)"
    by (simp add: dispatched_trace events_since_def switched_def isEventAvailable_def
          emit_def log_unknown_def Let_def fd)
  moreover have "s = Authenticate \<longrightarrow> last (trace ?t2) = AuthenticateAsync"
    by (simp add: dispatched_trace emit_def)
  moreover have "s = Enroll \<longrightarrow> last (trace ?t2) = EnrollAsync"
    by (simp add: dispatched_trace emit_def)
  moreover have "s \<notin> {Idle, Pause, Authenticate, Enroll} \<longrightarrow>
                 last (trace ?t2) =
                   ALOG WARN ''Unexpected AsyncState %s'' [Str (AsyncStateToChar s)]"
    using ns by (cases s) (simp_all add: dispatched_trace emit_def)
  ultimately show "\<exists>t2. RunThread_loop ((cnt, i) # sched) t = RunThread_loop sched t2 \<and>
              currentState t2 = Idle \<and>
              (s = Idle \<longrightarrow> last (trace t2) = IdleAsync) \<and>
              (s = Pause \<longrightarrow> PollFd (event_fd t) (- 1) \<in> set (events_since t1 t2)) \<and>
              (s = Authenticate \<longrightarrow> last (trace t2) = AuthenticateAsync) \<and>
              (s = Enroll \<longrightarrow> last (trace t2) = EnrollAsync) \<and>
              (s \<notin> {Idle, Pause, Authenticate, Enroll} \<longrightarrow>
                 last (trace t2) =
                   ALOG WARN ''Unexpected AsyncState %s'' [Str (AsyncStateToChar s)])"
    by blast
next
  fix u' assume "RunThread_loop ((cnt, i) # sched) t = Inr (Looping, u')"
  then show "currentState u' = Idle"
    by (rule RunThread_loop_Looping) simp
next
  fix u' assume r: "RunThread_loop ((cnt, i) # sched) t = Inr (Returned, u')"
  from RunThread_loop_Returned [OF r] show "currentState u' = Stop" by simp
  from RunThread_loop_Returned [OF r] show "last (trace u') = ALOG INFO ''Stopping Thread'' []"
    by simp
qed

theorem RunThread_iteration_witness:
  "consumeState (requested Stop) =
     Inr (Stop, started\<lparr>currentState := Stop,
                  stores := [(2, CurrentState, Stop), (2, DesiredState, Invalid)],
                  trace := [MutexLock, EventfdRead, NotifyAll, MutexUnlock]\<rparr>) \<and>
   RunThread_loop [(0, worker_stalls Pause), (0, worker_stalls Enroll)] (requested Stop) =
     Inr (Returned,
          started\<lparr>currentState := Stop,
                  stores := [(2, CurrentState, Stop), (2, DesiredState, Invalid)],
            trace := [MutexLock, EventfdRead, NotifyAll, MutexUnlock,
                      ALOG DEBUG ''%s: Switched to state %s'' [Str ''RunThread'', Str ''Stop''],
                      ALOG INFO ''Stopping Thread'' []]\<rparr>) \<and>
   consumeState (requested Authenticate) =
     Inr (Authenticate, started\<lparr>currentState := Authenticate,
                  stores := [(2, CurrentState, Authenticate), (2, DesiredState, Invalid)],
                  trace := [MutexLock, EventfdRead, NotifyAll, MutexUnlock]\<rparr>) \<and>
   (\<exists>t2. RunThread_loop [(0, worker_stalls Stop)] (requested Authenticate) =
            RunThread_loop [] t2 \<and>
      currentState t2 = Idle \<and> last (trace t2) = AuthenticateAsync) \<and>
   (\<exists>u'. RunThread_loop [(0, worker_stalls Stop)] (requested Authenticate) = Inr (Looping, u') \<and>
      currentState u' = Idle)"
proof -
  have stop: "consumeState (requested Stop) =
     Inr (Stop, started\<lparr>currentState := Stop,
                  stores := [(2, CurrentState, Stop), (2, DesiredState, Invalid)],
                  trace := [MutexLock, EventfdRead, NotifyAll, MutexUnlock]\<rparr>)"
    by (simp add: consumeState_def example_defs prim_defs Let_def)
  have auth: "consumeState (requested Authenticate) =
     Inr (Authenticate, started\<lparr>currentState := Authenticate,
                  stores := [(2, CurrentState, Authenticate), (2, DesiredState, Invalid)],
                  trace := [MutexLock, EventfdRead, NotifyAll, MutexUnlock]\<rparr>)"
    by (simp add: consumeState_def example_defs prim_defs Let_def)
  from RunThread_iteration [OF stop, of 0 "worker_stalls Pause" "[(0, worker_stalls Enroll)]"]
  have a: "RunThread_loop [(0, worker_stalls Pause), (0, worker_stalls Enroll)] (requested Stop) =
     Inr (Returned,
          started\<lparr>currentState := Stop,
                  stores := [(2, CurrentState, Stop), (2, DesiredState, Invalid)],
            trace := [MutexLock, EventfdRead, NotifyAll, MutexUnlock,
                      ALOG DEBUG ''%s: Switched to state %s'' [Str ''RunThread'', Str ''Stop''],
                      ALOG INFO ''Stopping Thread'' []]\<rparr>)"
    by (simp add: example_defs)
  from RunThread_iteration [OF auth, of 0 "worker_stalls Stop" "[]"]
  obtain t2 where b: "RunThread_loop [(0, worker_stalls Stop)] (requested Authenticate) =
            RunThread_loop [] t2" "currentState t2 = Idle" "last (trace t2) = AuthenticateAsync"
    by auto
  from b have "RunThread_loop [(0, worker_stalls Stop)] (requested Authenticate) = Inr (Looping, t2)"
    by simp
  with stop auth a b show ?thesis by blast
qed

text \<open>
  C6. Called with a lock handle that refers to another mutex, or that does not own its
  mutex, both \<^verbatim>\<open>moveToState(state, lock)\<close> and \<^verbatim>\<open>waitForState(state, lock)\<close> abort
  the process.
\<close>

theorem lock_ownership_asserted:
  assumes "lk_mutex lock \<noteq> Some (mEventfdMutex t) \<or> \<not> lk_owns lock"
  shows "moveToState_lock S lock t = Inl (Fatal ''Caller didn't lock mEventfdMutex!'') \<and>
         waitForState_lock ws S lock t = Inl (Fatal ''Caller didn't lock mEventfdMutex!'')"
  using assms by (auto simp add: waitForState_lock_def moveToState_lock_def)

theorem lock_ownership_asserted_witness:
  "lk_mutex \<lparr>lk_mutex = Some 8, lk_owns = True\<rparr> \<noteq> Some (mEventfdMutex started) \<and>
   moveToState_lock Pause \<lparr>lk_mutex = Some 8, lk_owns = True\<rparr> started =
     Inl (Fatal ''Caller didn't lock mEventfdMutex!'') \<and>
   waitForState_lock [(10, worker_enters Pause)] Pause \<lparr>lk_mutex = Some 8, lk_owns = True\<rparr>
     started = Inl (Fatal ''Caller didn't lock mEventfdMutex!'') \<and>
   lk_mutex \<lparr>lk_mutex = Some 7, lk_owns = False\<rparr> = Some (mEventfdMutex started) \<and>
   \<not> lk_owns \<lparr>lk_mutex = Some 7, lk_owns = False\<rparr> \<and>
   moveToState_lock Pause \<lparr>lk_mutex = Some 7, lk_owns = False\<rparr> started =
     Inl (Fatal ''Caller didn't lock mEventfdMutex!'') \<and>
   waitForState_lock [(10, worker_enters Pause)] Pause \<lparr>lk_mutex = Some 7, lk_owns = False\<rparr>
     started = Inl (Fatal ''Caller didn't lock mEventfdMutex!'')"
proof -
  have wrong: "lk_mutex \<lparr>lk_mutex = Some 8, lk_owns = True\<rparr> \<noteq> Some (mEventfdMutex started)"
    by (simp add: example_defs)
  have same: "lk_mutex \<lparr>lk_mutex = Some 7, lk_owns = False\<rparr> = Some (mEventfdMutex started)"
    by (simp add: example_defs)
  have unheld: "\<not> lk_owns \<lparr>lk_mutex = Some 7, lk_owns = False\<rparr>"
    by simp
  have h1: "lk_mutex \<lparr>lk_mutex = Some 8, lk_owns = True\<rparr> \<noteq> Some (mEventfdMutex started) \<or>
    \<not> lk_owns \<lparr>lk_mutex = Some 8, lk_owns = True\<rparr>"
    using wrong by (rule disjI1)
  have h2: "lk_mutex \<lparr>lk_mutex = Some 7, lk_owns = False\<rparr> \<noteq> Some (mEventfdMutex started) \<or>
    \<not> lk_owns \<lparr>lk_mutex = Some 7, lk_owns = False\<rparr>"
    using unheld by (rule disjI2)
  from lock_ownership_asserted [OF h1, of Pause "[(10, worker_enters Pause)]"]
    lock_ownership_asserted [OF h2, of Pause "[(10, worker_enters Pause)]"]
    wrong same unheld
  show ?thesis by blast
qed

text \<open>
  C7. The constructor aborts when the handler is null, and aborts when the eventfd could
  not be created; a coordinator it returns has the handler it was given, which is not null,
  and a descriptor that is not negative.
\<close>

theorem Thread_ctor_checks:
  "(handler = None \<longrightarrow> Thread_ctor m handler fd = Inl (Fatal ''WorkHandler is null!'')) \<and>
   (handler \<noteq> None \<and> fd < 0 \<longrightarrow>
      Thread_ctor m handler fd = Inl (Fatal ''Failed to create eventfd: %s'')) \<and>
   (\<forall>t. Thread_ctor m handler fd = Inr t \<longrightarrow>
      mHandler t = handler \<and> mHandler t \<noteq> None \<and> event_fd t = fd \<and> 0 \<le> event_fd t)"
  by (auto simp add: Thread_ctor_def split: if_splits)

theorem Thread_ctor_checks_witness:
  "Thread_ctor 7 None 3 = Inl (Fatal ''WorkHandler is null!'') \<and>
   Some 1 \<noteq> (None :: nat option) \<and> (- 1 :: int) < 0 \<and>
   Thread_ctor 7 (Some 1) (- 1) = Inl (Fatal ''Failed to create eventfd: %s'') \<and>
   Thread_ctor 7 (Some 1) 3 = Inr fresh \<and>
   mHandler fresh = Some 1 \<and> mHandler fresh \<noteq> None \<and> event_fd fresh = 3 \<and> 0 \<le> event_fd fresh"
proof -
  have h: "Thread_ctor 7 (Some 1) 3 = Inr fresh"
    by (simp add: Thread_ctor_def fresh_def initial_currentState_def initial_desiredState_def)
  from Thread_ctor_checks [of None 7 3] Thread_ctor_checks [of "Some 1" 7 "- 1"]
    Thread_ctor_checks [of "Some 1" 7 3] h
  show ?thesis by simp
qed



text \<open>
  C9. When \<^verbatim>\<open>moveToState(S)\<close> or \<^verbatim>\<open>moveToState(S, lock)\<close> returns \<open>false\<close>, the
  write to the eventfd has failed and the counter is what it was, so the worker is not
  signalled; \<open>desiredState\<close> is \<open>S\<close> all the same.
\<close>

theorem moveToState_failure_keeps_request:
  assumes "moveToState S t = Inr (False, t') \<or> moveToState_lock S lock t = Inr (False, t')"
  shows "fst (eventfd_write t) \<noteq> 0 \<and> desiredState t' = S \<and>
         efd_counter t' = efd_counter t \<and> currentState t' = currentState t"
  using assms
proof
  assume a: "moveToState S t = Inr (False, t')"
  then have "\<not> efd_counter t < EFD_MAX"
    by (simp add: moveToState_cases)
  with a show ?thesis
    by (auto simp add: moveToState_cases eventfd_write_rc)
next
  assume a: "moveToState_lock S lock t = Inr (False, t')"
  then have valid: "lk_mutex lock = Some (mEventfdMutex t)" "lk_owns lock"
    by (auto simp add: moveToState_lock_def split: if_splits)
  from a have "\<not> efd_counter t < EFD_MAX"
    by (simp add: moveToState_lock_events [OF valid])
  with a show ?thesis
    by (auto simp add: moveToState_lock_events [OF valid] eventfd_write_rc)
qed

theorem moveToState_failure_keeps_request_witness:
  "(\<exists>t'. moveToState Pause saturated = Inr (False, t') \<and> desiredState t' = Pause \<and>
      desiredState saturated = Invalid \<and> efd_counter t' = efd_counter saturated) \<and>
   (\<exists>t'. moveToState_lock Pause (held_lock saturated) saturated = Inr (False, t') \<and>
      desiredState t' = Pause \<and> efd_counter t' = efd_counter saturated)"
proof -
  obtain t' where h: "moveToState Pause saturated = Inr (False, t')"
    by (simp add: moveToState_def moveToState_lock_def example_defs prim_defs Let_def EFD_MAX_def)
  obtain u' where k: "moveToState_lock Pause (held_lock saturated) saturated = Inr (False, u')"
    by (simp add: moveToState_lock_def example_defs prim_defs Let_def EFD_MAX_def)
  from moveToState_failure_keeps_request [OF disjI1, OF h]
    moveToState_failure_keeps_request [OF disjI2, OF k] h k
  show ?thesis
    by (simp add: example_defs)
qed

text \<open>
  C10. \<^verbatim>\<open>Stop()\<close> on a coordinator whose thread is not joinable returns, having only
  taken and released the mutex: \<open>currentState\<close>, \<open>desiredState\<close> and the eventfd are
  untouched. Whenever \<^verbatim>\<open>Stop()\<close> returns, a second \<^verbatim>\<open>Stop()\<close> is of that kind; so is
  \<^verbatim>\<open>Stop()\<close> on a coordinator just constructed.
\<close>

theorem Thread_Stop_idempotent:
  "(\<not> thread_joinable t \<longrightarrow>
      (\<exists>t'. Thread_Stop ws t = Inr t' \<and> currentState t' = currentState t \<and>
            desiredState t' = desiredState t \<and> efd_counter t' = efd_counter t \<and>
            events_since t t' = [MutexLock, MutexUnlock])) \<and>
   (\<forall>t1. Thread_Stop ws t = Inr t1 \<longrightarrow>
      (\<exists>t2. Thread_Stop ws' t1 = Inr t2 \<and> currentState t2 = currentState t1 \<and>
            desiredState t2 = desiredState t1 \<and> efd_counter t2 = efd_counter t1 \<and>
            events_since t1 t2 = [MutexLock, MutexUnlock])) \<and>
   (\<forall>t0. Thread_ctor m h fd = Inr t0 \<longrightarrow> \<not> thread_joinable t0)"
proof (intro conjI allI impI)
  assume "\<not> thread_joinable t"
  then show "\<exists>t'. Thread_Stop ws t = Inr t' \<and> currentState t' = currentState t \<and>
            desiredState t' = desiredState t \<and> efd_counter t' = efd_counter t \<and>
            events_since t t' = [MutexLock, MutexUnlock]"
    by (simp add: Thread_Stop_not_joinable events_since_def)
next
  fix t1 assume "Thread_Stop ws t = Inr t1"
  then have "\<not> thread_joinable t1" by (rule Thread_Stop_joined)
  then show "\<exists>t2. Thread_Stop ws' t1 = Inr t2 \<and> currentState t2 = currentState t1 \<and>
            desiredState t2 = desiredState t1 \<and> efd_counter t2 = efd_counter t1 \<and>
            events_since t1 t2 = [MutexLock, MutexUnlock]"
    by (simp add: Thread_Stop_not_joinable events_since_def)
next
  fix t0 assume "Thread_ctor m h fd = Inr t0"
  then show "\<not> thread_joinable t0"
    by (auto simp add: Thread_ctor_def split: if_splits)
qed

theorem Thread_Stop_idempotent_witness:
  "\<not> thread_joinable fresh \<and>
   (\<exists>t'. Thread_Stop [] fresh = Inr t' \<and> currentState t' = currentState fresh \<and>
      desiredState t' = desiredState fresh \<and> efd_counter t' = efd_counter fresh \<and>
      events_since fresh t' = [MutexLock, MutexUnlock]) \<and>
   (\<exists>t1 t2. Thread_Stop [(10, worker_enters Stop)] started = Inr t1 \<and>
      Thread_Stop [] t1 = Inr t2 \<and> currentState t2 = currentState t1 \<and>
      desiredState t2 = desiredState t1 \<and> efd_counter t2 = efd_counter t1 \<and>
      events_since t1 t2 = [MutexLock, MutexUnlock]) \<and>
   Thread_ctor 7 (Some 1) 3 = Inr fresh"
proof -
  obtain t1 where h: "Thread_Stop [(10, worker_enters Stop)] started = Inr t1"
    by (simp add: Thread_Stop_def waitForState_lock_def moveToState_lock_def wait_timeout_def
          example_defs prim_defs Let_def EFD_MAX_def)
  have c: "Thread_ctor 7 (Some 1) 3 = Inr fresh"
    by (simp add: Thread_ctor_def fresh_def initial_currentState_def initial_desiredState_def)
  have nj: "\<not> thread_joinable fresh"
    by (simp add: fresh_def)
  from Thread_Stop_idempotent [of fresh "[]" "[]" 7 "Some 1" 3]
    Thread_Stop_idempotent [of started "[(10, worker_enters Stop)]" "[]" 7 "Some 1" 3] h c nj
  show ?thesis by blast
qed

end
